theory Spec2Isabelle
  imports Main
begin

section \<open>draftfast: the iterative roster optimizer (\<^verbatim>\<open>draftfast/optimize.py\<close>)\<close>

text \<open>
  The module holds three functions: \<^verbatim>\<open>run\<close> (one solve), \<^verbatim>\<open>run_multi\<close> (the
  iteration loop) and \<^verbatim>\<open>reset_player_ban_lock\<close>. Everything else they call
  (the pool filter, the optimizer, the exposure functions, the roster container, the
  random generator) lives in other modules; those collaborators are parameters of the
  model, collected in the record \<open>collaborators\<close>.

  Python objects that are shared and mutated are kept in an explicit store: a player
  is a reference into a heap of player records, so that the player pool, the filtered
  player list and the rosters alias the same players, as they do in Python.
  An exception is a value: \<^verbatim>\<open>run\<close> returns \<open>Inl\<close> of the error or \<open>Inr\<close> of its result,
  next to the heap as it leaves it. \<^verbatim>\<open>print\<close>, and the table and matrix that the verbose
  mode renders for it, only write to standard output and are left out.
\<close>

subsection \<open>Data\<close>

type_synonym ref = nat

record player =
  name :: string
  pos :: string
  cost :: int
  proj :: int
  ban :: bool
  lock :: bool

type_synonym heap = "ref \<Rightarrow> player"

text \<open>
  Modelled from the spec: the class \<^verbatim>\<open>Roster\<close> (module \<^verbatim>\<open>draftfast.orm\<close>) is a
  passive container that accumulates the selected players; \<^verbatim>\<open>add_player\<close> appends.
  As a plain object a roster is truthy, so \<^verbatim>\<open>if roster:\<close> only tests for \<^verbatim>\<open>None\<close>.
\<close>

record roster =
  players :: "ref list"

definition add_player :: "roster \<Rightarrow> ref \<Rightarrow> roster" where
  "add_player r p = r\<lparr>players := players r @ [p]\<rparr>"

text \<open>
  Modelled from the spec: \<^verbatim>\<open>LineupConstraints\<close> (module
  \<^verbatim>\<open>draftfast.lineup_contraints\<close>) collects the names given to \<^verbatim>\<open>ban\<close> and
  \<^verbatim>\<open>lock\<close>; a name that matches no player is a silent no-op.
\<close>

record lineup_constraints =
  c_banned :: "string list"
  c_locked :: "string list"

definition LineupConstraints :: lineup_constraints where
  "LineupConstraints = \<lparr>c_banned = [], c_locked = []\<rparr>"

definition c_ban :: "lineup_constraints \<Rightarrow> string \<Rightarrow> lineup_constraints" where
  "c_ban c n = c\<lparr>c_banned := c_banned c @ [n]\<rparr>"

definition c_lock :: "lineup_constraints \<Rightarrow> string \<Rightarrow> lineup_constraints" where
  "c_lock c n = c\<lparr>c_locked := c_locked c @ [n]\<rparr>"

text \<open>
  Modelled from the spec: the settings and rule-set records of \<^verbatim>\<open>draftfast.settings\<close>
  and \<^verbatim>\<open>draftfast.rules\<close>, with the fields the spec names. In \<open>banned\<close> and
  \<open>locked\<close> the values \<^verbatim>\<open>None\<close> and \<^verbatim>\<open>[]\<close> are both the empty list: both are
  falsy, and a loop over either adds nothing.
\<close>

record player_pool_settings =
  banned :: "string list"
  locked :: "string list"
  min_salary :: int

record optimizer_settings =
  existing_rosters :: "roster list"

record rule_set =
  league :: string
  roster_size :: nat
  salary_cap :: int
  position_limits :: "(string \<times> nat) list"

text \<open>The dictionary returned by \<^verbatim>\<open>get_exposure_args\<close>: names to ban and to lock.\<close>

record exposure_dct =
  dct_banned :: "string list"
  dct_locked :: "string list"

record bound =
  b_name :: string
  b_min :: int
  b_max :: int

datatype py_error = IndexError

text \<open>What the optimizer hands back: the flag of \<^verbatim>\<open>solve()\<close>, the solution values of
  \<^verbatim>\<open>optimizer.variables\<close> in order, and the heap (the formulation may write the
  players' \<open>ban\<close> and \<open>lock\<close> flags).\<close>

record solve_result =
  solved :: bool
  solution :: "int list"
  heap_after :: heap

type_synonym rng_state = int

record collaborators =
  filter_pool :: "heap \<Rightarrow> ref list \<Rightarrow> player_pool_settings option \<Rightarrow> ref list"
  optimizer :: "ref list \<Rightarrow> rule_set \<Rightarrow> optimizer_settings option \<Rightarrow> lineup_constraints
                  \<Rightarrow> exposure_dct option \<Rightarrow> heap \<Rightarrow> solve_result"
  roster_select :: "string \<Rightarrow> roster"
  get_exposure_args :: "heap \<Rightarrow> roster list \<Rightarrow> bound list \<Rightarrow> int \<Rightarrow> bool \<Rightarrow> int option
                  \<Rightarrow> rng_state \<Rightarrow> exposure_dct \<times> rng_state"
  check_exposure :: "heap \<Rightarrow> roster list \<Rightarrow> bound list option \<Rightarrow> (string \<times> int) list"
  random_seed :: "int \<Rightarrow> rng_state"

subsection \<open>\<^verbatim>\<open>run\<close>: one solve\<close>

text \<open>
  The loop \<^verbatim>\<open>for i, player in enumerate(players): if variables[i].solution_value() == 1:
  roster.add_player(player)\<close>. Reading \<^verbatim>\<open>variables[i]\<close> past the end of the list
  raises \<^verbatim>\<open>IndexError\<close>.
\<close>

fun add_selected :: "int list \<Rightarrow> nat \<Rightarrow> ref list \<Rightarrow> roster \<Rightarrow> py_error + roster" where
  "add_selected variables i [] r = Inr r"
| "add_selected variables i (p # ps) r =
     (if length variables \<le> i then Inl IndexError
      else if variables ! i = 1 then add_selected variables (Suc i) ps (add_player r p)
      else add_selected variables (Suc i) ps r)"

definition build_constraints :: "player_pool_settings option \<Rightarrow> lineup_constraints" where
  "build_constraints player_settings =
     (let constraints = LineupConstraints;
          constraints = (case player_settings of
                           None \<Rightarrow> constraints
                         | Some s \<Rightarrow> foldl c_ban constraints (banned s));
          constraints = (case player_settings of
                           None \<Rightarrow> constraints
                         | Some s \<Rightarrow> foldl c_lock constraints (locked s))
      in constraints)"

definition run :: "collaborators \<Rightarrow> rule_set \<Rightarrow> ref list \<Rightarrow> optimizer_settings option
    \<Rightarrow> player_pool_settings option \<Rightarrow> exposure_dct option \<Rightarrow> roster option \<Rightarrow> bool
    \<Rightarrow> heap \<Rightarrow> (py_error + roster option) \<times> heap" where
  "run env rule_set player_pool optimizer_settings player_settings exposure_dct roster_gen
       verbose h =
     (let constraints = build_constraints player_settings;
          plist = filter_pool env h player_pool player_settings;
          opt = optimizer env plist rule_set optimizer_settings constraints exposure_dct h;
          variables = solution opt
      in if solved opt then
           (let roster = (case roster_gen of
                            Some r \<Rightarrow> r
                          | None \<Rightarrow> roster_select env (league rule_set))
            in (case add_selected variables 0 plist roster of
                  Inl e \<Rightarrow> (Inl e, heap_after opt)
                | Inr r \<Rightarrow> (Inr (Some r), heap_after opt)))
         else (Inr None, heap_after opt))"

subsection \<open>\<^verbatim>\<open>reset_player_ban_lock\<close>\<close>

definition reset_player_ban_lock :: "ref list \<Rightarrow> heap \<Rightarrow> heap" where
  "reset_player_ban_lock player_pool h =
     fold (\<lambda>p h. h(p := (h p)\<lparr>ban := False, lock := False\<rparr>)) player_pool h"

subsection \<open>\<^verbatim>\<open>run_multi\<close>: the iteration loop\<close>

text \<open>
  The world \<^verbatim>\<open>run_multi\<close> works in: the heap of players, the global random
  generator, the settings object (whose list \<^verbatim>\<open>existing_rosters\<close> the loop extends)
  and the trace of the calls to \<^verbatim>\<open>run\<close>. A trace entry records the player pool as
  the call received it, the exposure hints passed, what the call returned or raised, and
  the player pool as the call left it.
\<close>

record call =
  seen :: "player list"
  hints :: "exposure_dct option"
  outcome :: "py_error + roster option"
  left_pool :: "player list"

record world =
  heap :: heap
  rng :: rng_state
  settings :: optimizer_settings
  calls :: "call list"

text \<open>Python truthiness of the seed: \<^verbatim>\<open>None\<close> and \<^verbatim>\<open>0\<close> are falsy.\<close>

definition truthy_seed :: "int option \<Rightarrow> bool" where
  "truthy_seed s = (case s of None \<Rightarrow> False | Some n \<Rightarrow> n \<noteq> 0)"

text \<open>Lines 90 to 98: the exposure hints of one iteration (\<^verbatim>\<open>None\<close> and \<^verbatim>\<open>[]\<close> are the
  falsy values of \<^verbatim>\<open>exposure_bounds\<close>).\<close>

definition exposure_hints :: "collaborators \<Rightarrow> int \<Rightarrow> bound list option \<Rightarrow> int option
    \<Rightarrow> world \<Rightarrow> exposure_dct option \<times> world" where
  "exposure_hints env iterations exposure_bounds exposure_random_seed w =
     (case exposure_bounds of
        None \<Rightarrow> (None, w)
      | Some bs \<Rightarrow>
          if bs = [] then (None, w)
          else (case get_exposure_args env (heap w) (existing_rosters (settings w)) bs
                       iterations (truthy_seed exposure_random_seed) exposure_random_seed (rng w) of
                  (d, g) \<Rightarrow> (Some d, w\<lparr>rng := g\<rparr>)))"

text \<open>Lines 90 to 107: the hints, then the call of \<^verbatim>\<open>run\<close>, which the trace records.\<close>

definition iteration :: "collaborators \<Rightarrow> int \<Rightarrow> rule_set \<Rightarrow> ref list
    \<Rightarrow> player_pool_settings option \<Rightarrow> bool \<Rightarrow> bound list option \<Rightarrow> int option
    \<Rightarrow> world \<Rightarrow> (py_error + roster option) \<times> world" where
  "iteration env iterations rule_set player_pool player_settings verbose exposure_bounds
       exposure_random_seed w =
     (case exposure_hints env iterations exposure_bounds exposure_random_seed w of
        (exposure_dct, w1) \<Rightarrow>
          (case run env rule_set player_pool (Some (settings w1)) player_settings exposure_dct
                  None verbose (heap w1) of
             (res, h) \<Rightarrow>
               (res, w1\<lparr>heap := h,
                        calls := calls w1 @ [\<lparr>seen = map (heap w1) player_pool,
                                              hints = exposure_dct, outcome = res,
                                              left_pool = map h player_pool\<rparr>]\<rparr>)))"

text \<open>Lines 109 and 117, for an accepted roster: \<^verbatim>\<open>optimizer_settings.existing_rosters +=
  [roster]\<close> and \<^verbatim>\<open>reset_player_ban_lock(player_pool)\<close>.\<close>

definition accept :: "ref list \<Rightarrow> roster \<Rightarrow> world \<Rightarrow> world" where
  "accept player_pool roster w =
     w\<lparr>settings := (settings w)\<lparr>existing_rosters := existing_rosters (settings w) @ [roster]\<rparr>,
       heap := reset_player_ban_lock player_pool (heap w)\<rparr>"

text \<open>The \<^verbatim>\<open>for\<close> loop over \<^verbatim>\<open>range(0, iterations)\<close>, by the number of iterations left:
  an exception of \<^verbatim>\<open>run\<close> propagates, a roster of \<^verbatim>\<open>None\<close> breaks out of the loop, and
  an accepted roster is appended before the next iteration.\<close>

fun run_multi_loop :: "collaborators \<Rightarrow> int \<Rightarrow> rule_set \<Rightarrow> ref list
    \<Rightarrow> player_pool_settings option \<Rightarrow> bool \<Rightarrow> bound list option \<Rightarrow> int option
    \<Rightarrow> nat \<Rightarrow> roster list \<Rightarrow> world \<Rightarrow> (py_error + roster list) \<times> world" where
  "run_multi_loop env iterations rule_set player_pool player_settings verbose exposure_bounds
       exposure_random_seed 0 rosters w = (Inr rosters, w)"
| "run_multi_loop env iterations rule_set player_pool player_settings verbose exposure_bounds
       exposure_random_seed (Suc k) rosters w =
     (case iteration env iterations rule_set player_pool player_settings verbose
             exposure_bounds exposure_random_seed w of
        (Inl e, w2) \<Rightarrow> (Inl e, w2)
      | (Inr None, w2) \<Rightarrow> (Inr rosters, w2)
      | (Inr (Some roster), w2) \<Rightarrow>
          run_multi_loop env iterations rule_set player_pool player_settings verbose
            exposure_bounds exposure_random_seed k (rosters @ [roster])
            (accept player_pool roster w2))"

definition run_multi :: "collaborators \<Rightarrow> int \<Rightarrow> rule_set \<Rightarrow> ref list
    \<Rightarrow> player_pool_settings option \<Rightarrow> bool \<Rightarrow> bound list option \<Rightarrow> int option
    \<Rightarrow> world \<Rightarrow> (py_error + roster list \<times> (string \<times> int) list) \<times> world" where
  "run_multi env iterations rule_set player_pool player_settings verbose exposure_bounds
       exposure_random_seed w =
     (let w0 = (case exposure_random_seed of
                  None \<Rightarrow> w
                | Some s \<Rightarrow> if s \<noteq> 0 then w\<lparr>rng := random_seed env s\<rparr> else w)
      in case run_multi_loop env iterations rule_set player_pool player_settings verbose
                exposure_bounds exposure_random_seed (nat iterations) [] w0 of
           (Inl e, w') \<Rightarrow> (Inl e, w')
         | (Inr rosters, w') \<Rightarrow>
             (Inr (rosters,
                   if rosters \<noteq> [] \<and> verbose
                   then check_exposure env (heap w') rosters exposure_bounds
                   else []),
              w'))"

subsection \<open>Reading the trace\<close>

text \<open>The calls a run added to the trace, the rosters they returned, and the pools whose
  players all have both flags false.\<close>

definition new_calls :: "world \<Rightarrow> world \<Rightarrow> call list" where
  "new_calls w w' = drop (length (calls w)) (calls w')"

definition accepted :: "call list \<Rightarrow> roster list" where
  "accepted cs =
     concat (map (\<lambda>c. case outcome c of Inr (Some r) \<Rightarrow> [r] | _ \<Rightarrow> []) cs)"

definition flags_clear :: "player list \<Rightarrow> bool" where
  "flags_clear ps = list_all (\<lambda>p. \<not> ban p \<and> \<not> lock p) ps"

text \<open>How a trace and a result of the loop fit together, for \<open>k\<close> iterations left and the
  rosters accumulated so far: the loop ends with the first call that does not return a
  roster, or when no iteration is left.\<close>

fun well_traced :: "nat \<Rightarrow> roster list \<Rightarrow> call list \<Rightarrow> py_error + roster list \<Rightarrow> bool" where
  "well_traced k rosters [] res = (k = 0 \<and> res = Inr rosters)"
| "well_traced k rosters (c # cs) res =
     (0 < k \<and>
      (case outcome c of
         Inl e \<Rightarrow> cs = [] \<and> res = Inl e
       | Inr None \<Rightarrow> cs = [] \<and> res = Inr rosters
       | Inr (Some r) \<Rightarrow> well_traced (k - 1) (rosters @ [r]) cs res))"

subsection \<open>The collaborators, modelled from the spec\<close>

text \<open>
  Modelled from the spec: \<^verbatim>\<open>pool.filter_pool\<close> (module \<^verbatim>\<open>draftfast.player_pool\<close>)
  narrows the pool by static eligibility, here the salary floor, and keeps its order.
\<close>

definition spec_filter_pool :: "heap \<Rightarrow> ref list \<Rightarrow> player_pool_settings option \<Rightarrow> ref list" where
  "spec_filter_pool h player_pool player_settings =
     (case player_settings of
        None \<Rightarrow> player_pool
      | Some s \<Rightarrow> filter (\<lambda>p. min_salary s \<le> cost (h p)) player_pool)"

text \<open>
  Modelled from the spec: the constraint overlay of the class \<^verbatim>\<open>Optimizer\<close> (module
  \<^verbatim>\<open>draftfast.optimizer\<close>). The names banned or locked by the lineup constraints and by
  the exposure hints mark the named players of the solve; marking only sets a flag, and
  touches nothing but the two flags.
\<close>

definition forced_out :: "lineup_constraints \<Rightarrow> exposure_dct option \<Rightarrow> string list" where
  "forced_out c d = c_banned c @ (case d of None \<Rightarrow> [] | Some x \<Rightarrow> dct_banned x)"

definition forced_in :: "lineup_constraints \<Rightarrow> exposure_dct option \<Rightarrow> string list" where
  "forced_in c d = c_locked c @ (case d of None \<Rightarrow> [] | Some x \<Rightarrow> dct_locked x)"

definition mark :: "string list \<Rightarrow> string list \<Rightarrow> player \<Rightarrow> player" where
  "mark out_names in_names pl =
     pl\<lparr>ban := ban pl \<or> name pl \<in> set out_names, lock := lock pl \<or> name pl \<in> set in_names\<rparr>"

definition mark_players :: "lineup_constraints \<Rightarrow> exposure_dct option \<Rightarrow> ref list \<Rightarrow> heap \<Rightarrow> heap" where
  "mark_players c d plist h p =
     (if p \<in> set plist then mark (forced_out c d) (forced_in c d) (h p) else h p)"

text \<open>
  Modelled from the spec: the formulation of the class \<^verbatim>\<open>Optimizer\<close>. One 0/1 variable
  per player of the solve, in the order of the player list; the roster size, the salary
  cap and the position quotas of the rule set; variable = 1 for a locked player and
  variable = 0 for a banned one; the objective is the sum of the projected values of the
  selected players. The solver is an exhaustive search: it reports failure when no
  assignment is feasible, and a feasible assignment of maximal objective otherwise.
\<close>

definition chosen :: "int list \<Rightarrow> ref list \<Rightarrow> ref list" where
  "chosen xs plist = map snd (filter (\<lambda>(x, p). x = 1) (zip xs plist))"

definition respects_flags :: "heap \<Rightarrow> ref list \<Rightarrow> int list \<Rightarrow> bool" where
  "respects_flags h plist xs =
     list_all (\<lambda>(x, p). (if lock (h p) then x = 1 else True) \<and> (if ban (h p) then x = 0 else True))
       (zip xs plist)"

definition feasible :: "rule_set \<Rightarrow> heap \<Rightarrow> ref list \<Rightarrow> int list \<Rightarrow> bool" where
  "feasible rs h plist xs =
     (length (chosen xs plist) = roster_size rs \<and>
      sum_list (map (\<lambda>p. cost (h p)) (chosen xs plist)) \<le> salary_cap rs \<and>
      list_all (\<lambda>(q, k). length (filter (\<lambda>p. pos (h p) = q) (chosen xs plist)) = k)
        (position_limits rs) \<and>
      respects_flags h plist xs)"

definition objective :: "heap \<Rightarrow> ref list \<Rightarrow> int list \<Rightarrow> int" where
  "objective h plist xs = sum_list (map (\<lambda>p. proj (h p)) (chosen xs plist))"

fun assignments :: "nat \<Rightarrow> int list list" where
  "assignments 0 = [[]]"
| "assignments (Suc n) = map ((#) 1) (assignments n) @ map ((#) 0) (assignments n)"

fun best_of :: "(int list \<Rightarrow> int) \<Rightarrow> int list \<Rightarrow> int list list \<Rightarrow> int list" where
  "best_of f b [] = b"
| "best_of f b (x # xs) = best_of f (if f b < f x then x else b) xs"

definition spec_optimizer :: "ref list \<Rightarrow> rule_set \<Rightarrow> optimizer_settings option
    \<Rightarrow> lineup_constraints \<Rightarrow> exposure_dct option \<Rightarrow> heap \<Rightarrow> solve_result" where
  "spec_optimizer plist rs os c d h =
     (let h' = mark_players c d plist h
      in case filter (feasible rs h' plist) (assignments (length plist)) of
           [] \<Rightarrow> \<lparr>solved = False, solution = replicate (length plist) 0, heap_after = h'\<rparr>
         | x # xs \<Rightarrow> \<lparr>solved = True, solution = best_of (objective h' plist) x xs,
                      heap_after = h'\<rparr>)"

text \<open>
  Modelled from the spec: \<^verbatim>\<open>RosterSelect().roster_gen(league)\<close> (module
  \<^verbatim>\<open>draftfast.orm\<close>) builds a fresh, empty roster.
\<close>

definition spec_roster_select :: "string \<Rightarrow> roster" where
  "spec_roster_select lg = \<lparr>players = []\<rparr>"

text \<open>
  Modelled from the spec: the exposure functions of \<^verbatim>\<open>draftfast.exposure\<close>. The
  exposure of a name is the number of rosters that hold a player of that name.
  \<^verbatim>\<open>get_exposure_args\<close> bans a name that has reached its upper bound and locks a name
  that can reach its lower bound only when it is in every remaining roster; with
  \<^verbatim>\<open>use_random\<close> it also locks one of the names still under their lower bound, picked by
  the random generator. \<^verbatim>\<open>check_exposure\<close> reports, per bound, the signed difference
  between the observed count and the bound it misses.
\<close>

definition appearances :: "heap \<Rightarrow> roster list \<Rightarrow> string \<Rightarrow> int" where
  "appearances h rosters n =
     int (length (filter (\<lambda>r. n \<in> set (map (\<lambda>p. name (h p)) (players r))) rosters))"

definition next_random :: "rng_state \<Rightarrow> rng_state" where
  "next_random g = (1103515245 * g + 12345) mod 2147483648"

definition over_names :: "heap \<Rightarrow> roster list \<Rightarrow> bound list \<Rightarrow> string list" where
  "over_names h existing bs =
     map b_name (filter (\<lambda>b. b_max b \<le> appearances h existing (b_name b)) bs)"

definition must_names :: "heap \<Rightarrow> roster list \<Rightarrow> bound list \<Rightarrow> int \<Rightarrow> string list" where
  "must_names h existing bs n =
     map b_name (filter (\<lambda>b. appearances h existing (b_name b) < b_min b \<and>
                              n - int (length existing) \<le> b_min b - appearances h existing (b_name b))
                   bs)"

definition under_names :: "heap \<Rightarrow> roster list \<Rightarrow> bound list \<Rightarrow> int \<Rightarrow> string list" where
  "under_names h existing bs n =
     filter (\<lambda>x. x \<notin> set (must_names h existing bs n))
       (map b_name (filter (\<lambda>b. appearances h existing (b_name b) < b_min b) bs))"

definition pick :: "rng_state \<Rightarrow> string list \<Rightarrow> string list" where
  "pick g xs = (if xs = [] then [] else [xs ! nat (g mod int (length xs))])"

definition spec_get_exposure_args :: "heap \<Rightarrow> roster list \<Rightarrow> bound list \<Rightarrow> int \<Rightarrow> bool
    \<Rightarrow> int option \<Rightarrow> rng_state \<Rightarrow> exposure_dct \<times> rng_state" where
  "spec_get_exposure_args h existing bs n use_random seed g =
     (if use_random then
        (\<lparr>dct_banned = over_names h existing bs,
          dct_locked = must_names h existing bs n @ pick g (under_names h existing bs n)\<rparr>,
         next_random g)
      else (\<lparr>dct_banned = over_names h existing bs, dct_locked = must_names h existing bs n\<rparr>, g))"

definition spec_check_exposure :: "heap \<Rightarrow> roster list \<Rightarrow> bound list option
    \<Rightarrow> (string \<times> int) list" where
  "spec_check_exposure h rosters bounds =
     (case bounds of
        None \<Rightarrow> []
      | Some bs \<Rightarrow>
          concat (map (\<lambda>b. let c = appearances h rosters (b_name b)
                           in if c < b_min b then [(b_name b, c - b_min b)]
                              else if b_max b < c then [(b_name b, c - b_max b)]
                              else []) bs))"

text \<open>
  Modelled from the spec: \<^verbatim>\<open>random.seed\<close> of the Python library makes the state of the
  global generator a function of the seed alone.
\<close>

definition spec_random_seed :: "int \<Rightarrow> rng_state" where
  "spec_random_seed s = \<bar>s\<bar>"

definition spec_env :: collaborators where
  "spec_env = \<lparr>filter_pool = spec_filter_pool, optimizer = spec_optimizer,
               roster_select = spec_roster_select, get_exposure_args = spec_get_exposure_args,
               check_exposure = spec_check_exposure, random_seed = spec_random_seed\<rparr>"

subsection \<open>A small league, for concrete runs\<close>

definition mk_player :: "string \<Rightarrow> int \<Rightarrow> int \<Rightarrow> player" where
  "mk_player n c v = \<lparr>name = n, pos = ''G'', cost = c, proj = v, ban = False, lock = False\<rparr>"

definition heap0 :: heap where
  "heap0 = (\<lambda>_. mk_player ''nobody'' 0 0)
              (0 := mk_player ''A'' 10 10, 1 := mk_player ''B'' 20 20, 2 := mk_player ''C'' 30 30)"

definition rules2 :: rule_set where
  "rules2 = \<lparr>league = ''NBA'', roster_size = 2, salary_cap = 50, position_limits = []\<rparr>"

definition world0 :: world where
  "world0 = \<lparr>heap = heap0, rng = 7, settings = \<lparr>existing_rosters = []\<rparr>, calls = []\<rparr>"

definition no_settings :: player_pool_settings where
  "no_settings = \<lparr>banned = [], locked = [], min_salary = 0\<rparr>"

definition ban_C_lock_A :: player_pool_settings where
  "ban_C_lock_A = \<lparr>banned = [''C''], locked = [''A''], min_salary = 0\<rparr>"

definition rules_tight :: rule_set where
  "rules_tight = \<lparr>league = ''NBA'', roster_size = 2, salary_cap = 5, position_limits = []\<rparr>"

definition bounds_B :: "bound list" where
  "bounds_B = [\<lparr>b_name = ''B'', b_min = 2, b_max = 2\<rparr>]"

definition bounds_A :: "bound list" where
  "bounds_A = [\<lparr>b_name = ''A'', b_min = 1, b_max = 2\<rparr>]"

definition bounds_BC :: "bound list" where
  "bounds_BC = [\<lparr>b_name = ''B'', b_min = 0, b_max = 1\<rparr>, \<lparr>b_name = ''C'', b_min = 0, b_max = 1\<rparr>]"

definition world_banned :: world where
  "world_banned = world0\<lparr>heap := heap0(2 := (heap0 2)\<lparr>ban := True\<rparr>)\<rparr>"

section \<open>Properties of \<^verbatim>\<open>run\<close>\<close>

lemma add_selected_zip:
  "i + length ps \<le> length vs \<Longrightarrow>
   add_selected vs i ps r =
     Inr (r\<lparr>players := players r @ map fst (filter (\<lambda>(p, v). v = 1) (zip ps (drop i vs)))\<rparr>)"
proof (induction ps arbitrary: i r)
  case Nil
  then show ?case by simp
next
  case (Cons p ps)
  from Cons.prems have lt: "i < length vs" and le: "Suc i + length ps \<le> length vs" by simp_all
  have d: "drop i vs = vs ! i # drop (Suc i) vs"
    using lt by (simp add: Cons_nth_drop_Suc)
  show ?case
    using lt by (simp add: Cons.IH [OF le] d add_player_def)
qed

section \<open>Properties of the iteration loop\<close>

lemma reset_player_ban_lock_apply:
  "reset_player_ban_lock player_pool h p =
     (if p \<in> set player_pool then (h p)\<lparr>ban := False, lock := False\<rparr> else h p)"
  unfolding reset_player_ban_lock_def
  by (induction player_pool arbitrary: h) auto

lemma reset_player_ban_lock_code [code]:
  "reset_player_ban_lock player_pool h p =
     (if p \<in> set player_pool then (h p)\<lparr>ban := False, lock := False\<rparr> else h p)"
  by (rule reset_player_ban_lock_apply)

lemma flags_clear_reset: "flags_clear (map (reset_player_ban_lock player_pool h) player_pool)"
  by (simp add: flags_clear_def list_all_iff reset_player_ban_lock_apply)

lemma exposure_hints_frame:
  "exposure_hints env n b s w = (d, w1) \<Longrightarrow>
   heap w1 = heap w \<and> settings w1 = settings w \<and> calls w1 = calls w"
  by (auto simp: exposure_hints_def split: option.splits if_splits prod.splits)

lemma iteration_frame:
  assumes "iteration env n rs pool ps v b s w = (res, w2)"
  shows "settings w2 = settings w"
    and "\<exists>c. calls w2 = calls w @ [c] \<and> outcome c = res \<and> seen c = map (heap w) pool
             \<and> left_pool c = map (heap w2) pool"
  using assms
  by (auto simp: iteration_def split: prod.splits dest!: exposure_hints_frame)

lemma accept_frame:
  "calls (accept pool r w) = calls w"
  "rng (accept pool r w) = rng w"
  "existing_rosters (settings (accept pool r w)) = existing_rosters (settings w) @ [r]"
  "heap (accept pool r w) = reset_player_ban_lock pool (heap w)"
  by (simp_all add: accept_def)

text \<open>The loop, read through its trace: the calls it adds are well traced, every accepted
  roster is appended to \<^verbatim>\<open>existing_rosters\<close>, the first call sees the pool as it was,
  every later call sees a pool with all flags false, and the pool at the end is the
  pool as the last call left it unless that call returned a roster (then it was reset).\<close>

lemma loop_trace:
  "run_multi_loop env n rs pool ps v b s k rosters w = (res, w') \<Longrightarrow>
   \<exists>new. calls w' = calls w @ new \<and> well_traced k rosters new res
        \<and> existing_rosters (settings w') = existing_rosters (settings w) @ accepted new
        \<and> (new \<noteq> [] \<longrightarrow> seen (hd new) = map (heap w) pool)
        \<and> list_all flags_clear (map seen (tl new))
        \<and> (new \<noteq> [] \<longrightarrow> (case outcome (last new) of
                Inr (Some r) \<Rightarrow> flags_clear (map (heap w') pool)
              | _ \<Rightarrow> map (heap w') pool = left_pool (last new)))"
proof (induction k arbitrary: rosters w)
  case 0
  then show ?case by (auto simp: accepted_def)
next
  case (Suc k)
  obtain r1 w2 where it: "iteration env n rs pool ps v b s w = (r1, w2)"
    by (cases "iteration env n rs pool ps v b s w")
  from iteration_frame [OF it] obtain c where
    st: "settings w2 = settings w" and c: "calls w2 = calls w @ [c]" "outcome c = r1"
      "seen c = map (heap w) pool" "left_pool c = map (heap w2) pool"
    by blast
  show ?case
  proof (cases r1)
    case (Inl e)
    with Suc.prems it have "res = Inl e" "w' = w2" by simp_all
    with c st Inl show ?thesis
      by (intro exI [of _ "[c]"]) (simp add: accepted_def)
  next
    case (Inr o1)
    show ?thesis
    proof (cases o1)
      case None
      with Suc.prems it Inr have "res = Inr rosters" "w' = w2" by simp_all
      with c st Inr None show ?thesis
        by (intro exI [of _ "[c]"]) (simp add: accepted_def)
    next
      case (Some r)
      with Suc.prems it Inr have rest:
        "run_multi_loop env n rs pool ps v b s k (rosters @ [r]) (accept pool r w2) = (res, w')"
        by simp
      from Suc.IH [OF this] obtain new where
        n: "calls w' = calls (accept pool r w2) @ new"
           "well_traced k (rosters @ [r]) new res"
           "existing_rosters (settings w') =
              existing_rosters (settings (accept pool r w2)) @ accepted new"
           "new \<noteq> [] \<longrightarrow> seen (hd new) = map (heap (accept pool r w2)) pool"
           "list_all flags_clear (map seen (tl new))"
           "new \<noteq> [] \<longrightarrow> (case outcome (last new) of
                Inr (Some r) \<Rightarrow> flags_clear (map (heap w') pool)
              | _ \<Rightarrow> map (heap w') pool = left_pool (last new))"
        by blast
      show ?thesis
      proof (intro exI [of _ "c # new"] conjI)
        show "calls w' = calls w @ c # new" using n(1) c(1) by (simp add: accept_frame)
        show "well_traced (Suc k) rosters (c # new) res" using n(2) c(2) Inr Some by simp
        show "existing_rosters (settings w') = existing_rosters (settings w) @ accepted (c # new)"
          using n(3) c(2) Inr Some st by (simp add: accept_frame accepted_def)
        show "c # new \<noteq> [] \<longrightarrow> seen (hd (c # new)) = map (heap w) pool" using c(3) by simp
        show "list_all flags_clear (map seen (tl (c # new)))"
          using n(4,5) by (cases new) (simp_all add: accept_frame flags_clear_reset)
        show "c # new \<noteq> [] \<longrightarrow> (case outcome (last (c # new)) of
                Inr (Some r) \<Rightarrow> flags_clear (map (heap w') pool)
              | _ \<Rightarrow> map (heap w') pool = left_pool (last (c # new)))"
        proof (cases "new = []")
          case True
          with n(2) have "k = 0" by simp
          with rest have "w' = accept pool r w2" by simp
          with True c(2) Inr Some show ?thesis
            by (simp add: accept_frame flags_clear_reset)
        next
          case False
          with n(6) show ?thesis by (auto split: sum.splits option.splits)
        qed
      qed
    qed
  qed
qed


lemma well_traced_length: "well_traced k rosters new res \<Longrightarrow> length new \<le> k"
proof (induction new arbitrary: k rosters)
  case Nil
  then show ?case by simp
next
  case (Cons c cs)
  then show ?case
    by (cases k) (auto split: sum.splits option.splits)
qed

lemma well_traced_result:
  "well_traced k rosters new res \<Longrightarrow>
   (case res of
      Inr rs \<Rightarrow> rs = rosters @ accepted new
    | Inl e \<Rightarrow> new \<noteq> [] \<and> outcome (last new) = Inl e)"
proof (induction new arbitrary: k rosters)
  case Nil
  then show ?case by (simp add: accepted_def)
next
  case (Cons c cs)
  show ?case
  proof (cases "outcome c")
    case (Inl e)
    with Cons.prems show ?thesis by simp
  next
    case (Inr o1)
    show ?thesis
    proof (cases o1)
      case None
      with Inr Cons.prems show ?thesis by (simp add: accepted_def)
    next
      case (Some r)
      with Inr Cons.prems have "well_traced (k - 1) (rosters @ [r]) cs res" by simp
      from Cons.IH [OF this] Inr Some show ?thesis
        by (cases res) (auto simp: accepted_def)
    qed
  qed
qed

lemma well_traced_failure_last:
  "well_traced k rosters new res \<Longrightarrow> i < length new \<Longrightarrow> outcome (new ! i) = Inr None \<Longrightarrow>
   length new = Suc i \<and> res = Inr (rosters @ accepted (take i new))
     \<and> length (accepted (take i new)) = i"
proof (induction new arbitrary: k rosters i)
  case Nil
  then show ?case by simp
next
  case (Cons c cs)
  show ?case
  proof (cases i)
    case 0
    with Cons.prems show ?thesis by (simp add: accepted_def)
  next
    case (Suc j)
    with Cons.prems have j: "j < length cs" "outcome (cs ! j) = Inr None" by simp_all
    then have ne: "cs \<noteq> []" by auto
    with Cons.prems(1) obtain r where r: "outcome c = Inr (Some r)"
      and wt: "well_traced (k - 1) (rosters @ [r]) cs res"
      by (auto split: sum.splits option.splits)
    from Cons.IH [OF wt j] r Suc show ?thesis
      by (simp add: accepted_def)
  qed
qed

text \<open>The same for \<^verbatim>\<open>run_multi\<close>: seeding the generator touches neither the heap, the
  settings nor the trace.\<close>

lemma run_multi_trace:
  assumes "run_multi env n rs pool ps v b s w = (out, w')"
  shows "\<exists>res. calls w' = calls w @ new_calls w w'
      \<and> well_traced (nat n) [] (new_calls w w') res
      \<and> out = (case res of
                 Inl e \<Rightarrow> Inl e
               | Inr rosters \<Rightarrow>
                   Inr (rosters, if rosters \<noteq> [] \<and> v then check_exposure env (heap w') rosters b
                                 else []))
      \<and> existing_rosters (settings w') =
          existing_rosters (settings w) @ accepted (new_calls w w')
      \<and> (new_calls w w' \<noteq> [] \<longrightarrow> seen (hd (new_calls w w')) = map (heap w) pool)
      \<and> list_all flags_clear (map seen (tl (new_calls w w')))
      \<and> (new_calls w w' \<noteq> [] \<longrightarrow> (case outcome (last (new_calls w w')) of
                Inr (Some r) \<Rightarrow> flags_clear (map (heap w') pool)
              | _ \<Rightarrow> map (heap w') pool = left_pool (last (new_calls w w'))))"
proof -
  define w0 where "w0 = (case s of None \<Rightarrow> w | Some x \<Rightarrow> if x \<noteq> 0 then w\<lparr>rng := random_seed env x\<rparr> else w)"
  have w0: "calls w0 = calls w" "heap w0 = heap w" "settings w0 = settings w"
    by (simp_all add: w0_def split: option.splits)
  obtain res w1 where l: "run_multi_loop env n rs pool ps v b s (nat n) [] w0 = (res, w1)"
    by (cases "run_multi_loop env n rs pool ps v b s (nat n) [] w0")
  from assms l have o: "w' = w1"
    "out = (case res of Inl e \<Rightarrow> Inl e
            | Inr rosters \<Rightarrow> Inr (rosters, if rosters \<noteq> [] \<and> v then check_exposure env (heap w') rosters b else []))"
    by (auto simp: run_multi_def w0_def [symmetric] split: sum.splits)
  from loop_trace [OF l] obtain new where
    n: "calls w1 = calls w0 @ new" "well_traced (nat n) [] new res"
       "existing_rosters (settings w1) = existing_rosters (settings w0) @ accepted new"
       "new \<noteq> [] \<longrightarrow> seen (hd new) = map (heap w0) pool"
       "list_all flags_clear (map seen (tl new))"
       "new \<noteq> [] \<longrightarrow> (case outcome (last new) of
                Inr (Some r) \<Rightarrow> flags_clear (map (heap w1) pool)
              | _ \<Rightarrow> map (heap w1) pool = left_pool (last new))"
    by blast
  from n(1) have nc: "new_calls w w' = new" by (simp add: new_calls_def o(1) w0)
  show ?thesis
    unfolding nc unfolding o(1)
    using n o(2) [unfolded o(1)] w0 by (intro exI [of _ res]) simp
qed

section \<open>Concrete runs of the small league\<close>

text \<open>Each run is evaluated once; the facts below are read off the result.\<close>

lemma scenario_B_quiet:
  "case run_multi spec_env 1 rules2 [0, 1, 2] (Some no_settings) False (Some bounds_B) None world0 of
     (out, w') \<Rightarrow>
       out = Inr ([\<lparr>players = [1, 2]\<rparr>], [])
       \<and> check_exposure spec_env (heap w') [\<lparr>players = [1, 2]\<rparr>] (Some bounds_B) = [(''B'', - 1)]"
  by code_simp

lemma scenario_B_verbose:
  "case run_multi spec_env 1 rules2 [0, 1, 2] (Some no_settings) True (Some bounds_B) None world0 of
     (out, w') \<Rightarrow> out = Inr ([\<lparr>players = [1, 2]\<rparr>], [(''B'', - 1)])"
  by code_simp

lemma scenario_BC:
  "case run_multi spec_env 3 rules2 [0, 1, 2] (Some no_settings) False (Some bounds_BC) None world0 of
     (out, w') \<Rightarrow>
       out = Inr ([\<lparr>players = [1, 2]\<rparr>], [])
       \<and> map outcome (new_calls world0 w') = [Inr (Some \<lparr>players = [1, 2]\<rparr>), Inr None]
       \<and> map (\<lambda>c. map ban (seen c)) (new_calls world0 w') = [[False, False, False], [False, False, False]]
       \<and> map (\<lambda>c. map lock (seen c)) (new_calls world0 w') = [[False, False, False], [False, False, False]]
       \<and> map (\<lambda>c. map ban (left_pool c)) (new_calls world0 w') = [[False, False, False], [False, True, True]]
       \<and> map ban (map (heap w') [0, 1, 2]) = [False, True, True]
       \<and> existing_rosters (settings w') = [\<lparr>players = [1, 2]\<rparr>]"
  by code_simp

lemma scenario_banned:
  "case run_multi spec_env 2 rules2 [0, 1, 2] (Some no_settings) False None None world_banned of
     (out, w') \<Rightarrow>
       out = Inr ([\<lparr>players = [0, 1]\<rparr>, \<lparr>players = [1, 2]\<rparr>], [])
       \<and> map (\<lambda>c. map ban (seen c)) (new_calls world_banned w') = [[False, False, True], [False, False, False]]
       \<and> map (\<lambda>c. flags_clear (seen c)) (new_calls world_banned w') = [False, True]"
  by code_simp

lemma scenario_plain:
  "case run_multi spec_env 1 rules2 [0, 1, 2] (Some no_settings) False None None world0 of
     (out, w') \<Rightarrow>
       out = Inr ([\<lparr>players = [1, 2]\<rparr>], [])
       \<and> existing_rosters (settings w') = [\<lparr>players = [1, 2]\<rparr>]
       \<and> existing_rosters (settings world0) = []
       \<and> map outcome (new_calls world0 w') = [Inr (Some \<lparr>players = [1, 2]\<rparr>)]
       \<and> flags_clear (map (heap w') [0, 1, 2])"
  by code_simp


section \<open>The claims about \<^verbatim>\<open>run\<close>\<close>

text \<open>
  Claim C3. Whenever the solve succeeds, \<^verbatim>\<open>run\<close> returns the fresh roster with exactly
  the players whose decision variable has the solution value 1 added to it, in the order
  of the player list of the solve (the filtered pool): a player whose variable is not 1
  is not added, and no selected player is left out. The optimizer gives one variable per
  player, so the list of variables is at least as long as the player list.
\<close>

theorem run_adds_exactly_selected:
  fixes env :: collaborators and h player_pool player_settings rule_set optimizer_settings
    exposure_dct roster_gen
  defines "plist \<equiv> filter_pool env h player_pool player_settings"
  defines "opt \<equiv> optimizer env plist rule_set optimizer_settings
                    (build_constraints player_settings) exposure_dct h"
  defines "fresh \<equiv> (case roster_gen of Some r \<Rightarrow> r | None \<Rightarrow> roster_select env (league rule_set))"
  assumes "solved opt" and "length plist \<le> length (solution opt)"
  shows "run env rule_set player_pool optimizer_settings player_settings exposure_dct
           roster_gen verbose h =
         (Inr (Some (fresh\<lparr>players := players fresh @
                 map fst (filter (\<lambda>(p, v). v = 1) (zip plist (solution opt)))\<rparr>)),
          heap_after opt)"
  using assms(4,5) unfolding run_def Let_def plist_def opt_def fresh_def
  by (simp add: add_selected_zip)

text \<open>The three-player league: the optimizer selects B and C, and they make the roster.\<close>

theorem run_adds_exactly_selected_witness:
  "solved (optimizer spec_env (filter_pool spec_env heap0 [0, 1, 2] (Some no_settings)) rules2
             None (build_constraints (Some no_settings)) None heap0)
   \<and> solution (optimizer spec_env (filter_pool spec_env heap0 [0, 1, 2] (Some no_settings)) rules2
             None (build_constraints (Some no_settings)) None heap0) = [0, 1, 1]
   \<and> fst (run spec_env rules2 [0, 1, 2] None (Some no_settings) None None False heap0)
       = Inr (Some \<lparr>players = [1, 2]\<rparr>)"
proof -
  have s: "solved (optimizer spec_env (filter_pool spec_env heap0 [0, 1, 2] (Some no_settings)) rules2
             None (build_constraints (Some no_settings)) None heap0)"
    by code_simp
  have v: "solution (optimizer spec_env (filter_pool spec_env heap0 [0, 1, 2] (Some no_settings)) rules2
             None (build_constraints (Some no_settings)) None heap0) = [0, 1, 1]"
    by code_simp
  have l: "length (filter_pool spec_env heap0 [0, 1, 2] (Some no_settings))
      \<le> length (solution (optimizer spec_env (filter_pool spec_env heap0 [0, 1, 2] (Some no_settings)) rules2
             None (build_constraints (Some no_settings)) None heap0))"
    by code_simp
  have e: "map fst (filter (\<lambda>(p, v). v = 1)
        (zip (filter_pool spec_env heap0 [0, 1, 2] (Some no_settings))
           (solution (optimizer spec_env (filter_pool spec_env heap0 [0, 1, 2] (Some no_settings)) rules2
             None (build_constraints (Some no_settings)) None heap0)))) = [1, 2]"
    by code_simp
  have f: "roster_select spec_env (league rules2) = \<lparr>players = []\<rparr>"
    by (simp add: spec_env_def spec_roster_select_def)
  have "fst (run spec_env rules2 [0, 1, 2] None (Some no_settings) None None False heap0)
       = Inr (Some \<lparr>players = [1, 2]\<rparr>)"
    by (simp only: run_adds_exactly_selected [OF s l, of None False] e f option.case fst_conv)
      simp
  with s v show ?thesis by simp
qed

text \<open>
  Claim C7. When the solver reports infeasibility (\<^verbatim>\<open>solve()\<close> is false), \<^verbatim>\<open>run\<close>
  returns \<^verbatim>\<open>None\<close> and raises nothing; and \<^verbatim>\<open>None\<close> is returned in that case only, so
  the null roster is the signal of the solve flag being false.
\<close>

theorem run_none_iff_unsolved:
  "fst (run env rule_set player_pool optimizer_settings player_settings exposure_dct
          roster_gen verbose h) = Inr None
   \<longleftrightarrow> \<not> solved (optimizer env (filter_pool env h player_pool player_settings) rule_set
                   optimizer_settings (build_constraints player_settings) exposure_dct h)"
  unfolding run_def Let_def by (simp split: sum.splits)

text \<open>With a salary cap of 5 no two players fit: the solve fails and \<^verbatim>\<open>run\<close> returns
  \<^verbatim>\<open>None\<close>.\<close>

theorem run_none_iff_unsolved_witness:
  "\<not> solved (optimizer spec_env (filter_pool spec_env heap0 [0, 1, 2] (Some no_settings))
               rules_tight None (build_constraints (Some no_settings)) None heap0)
   \<and> fst (run spec_env rules_tight [0, 1, 2] None (Some no_settings) None None False heap0)
       = Inr None"
proof -
  have s: "\<not> solved (optimizer spec_env (filter_pool spec_env heap0 [0, 1, 2] (Some no_settings))
               rules_tight None (build_constraints (Some no_settings)) None heap0)"
    by code_simp
  with run_none_iff_unsolved [of spec_env rules_tight "[0, 1, 2]" None "Some no_settings" None None
      False heap0]
  show ?thesis by simp
qed

section \<open>The claims about \<^verbatim>\<open>run_multi\<close>\<close>

text \<open>
  Claim C1, as stated: after the loop \<^verbatim>\<open>run_multi\<close> computes the exposure deviation
  over the accumulated rosters and returns it with the roster list, whatever \<^verbatim>\<open>verbose\<close>
  is. This fails: with \<^verbatim>\<open>verbose\<close> false the deviation is not computed. In the run below
  player B is bound to two appearances and makes one; the deviation of the returned
  rosters is B: -1, and the map returned is empty.
\<close>

theorem run_multi_deviation_counterexample:
  "fst (run_multi spec_env 1 rules2 [0, 1, 2] (Some no_settings) False (Some bounds_B) None world0)
     = Inr ([\<lparr>players = [1, 2]\<rparr>], [])
   \<and> check_exposure spec_env
        (heap (snd (run_multi spec_env 1 rules2 [0, 1, 2] (Some no_settings) False (Some bounds_B)
                      None world0)))
        [\<lparr>players = [1, 2]\<rparr>] (Some bounds_B) = [(''B'', - 1)]"
  using scenario_B_quiet by (simp add: case_prod_beta)

text \<open>
  Claim C1, amended. \<^verbatim>\<open>run_multi\<close> returns the rosters accepted by its iterations (all of
  them, or those before the first failed solve) together with a deviation map; the map
  is \<^verbatim>\<open>check_exposure\<close> of the returned rosters when the roster list is non-empty and
  \<^verbatim>\<open>verbose\<close> is true, and the empty map otherwise. Nothing is returned only when a call
  of \<^verbatim>\<open>run\<close> raised, and then that exception is the one propagated.
\<close>

theorem run_multi_returns_rosters_and_deviation:
  "case run_multi env iterations rule_set player_pool player_settings verbose exposure_bounds
          exposure_random_seed w of
     (Inr (rosters, exposure_diffs), w') \<Rightarrow>
        rosters = accepted (new_calls w w') \<and>
        exposure_diffs = (if rosters \<noteq> [] \<and> verbose
                          then check_exposure env (heap w') rosters exposure_bounds else [])
   | (Inl e, w') \<Rightarrow>
        new_calls w w' \<noteq> [] \<and> outcome (last (new_calls w w')) = Inl e"
proof -
  obtain out w' where r: "run_multi env iterations rule_set player_pool player_settings verbose
      exposure_bounds exposure_random_seed w = (out, w')"
    by (cases "run_multi env iterations rule_set player_pool player_settings verbose
      exposure_bounds exposure_random_seed w")
  from run_multi_trace [OF r] obtain res where
    t: "well_traced (nat iterations) [] (new_calls w w') res"
    and o: "out = (case res of
                 Inl e \<Rightarrow> Inl e
               | Inr rosters \<Rightarrow>
                   Inr (rosters, if rosters \<noteq> [] \<and> verbose
                                 then check_exposure env (heap w') rosters exposure_bounds
                                 else []))"
    by blast
  from well_traced_result [OF t] o show ?thesis
    unfolding r by (cases res) simp_all
qed

text \<open>The same run with \<^verbatim>\<open>verbose\<close> true returns the deviation B: -1.\<close>

theorem run_multi_returns_rosters_and_deviation_witness:
  "fst (run_multi spec_env 1 rules2 [0, 1, 2] (Some no_settings) True (Some bounds_B) None world0)
     = Inr ([\<lparr>players = [1, 2]\<rparr>], [(''B'', - 1)])
   \<and> check_exposure spec_env
        (heap (snd (run_multi spec_env 1 rules2 [0, 1, 2] (Some no_settings) True (Some bounds_B)
                      None world0)))
        [\<lparr>players = [1, 2]\<rparr>] (Some bounds_B) = [(''B'', - 1)]"
proof -
  obtain out w' where r: "run_multi spec_env 1 rules2 [0, 1, 2] (Some no_settings) True
      (Some bounds_B) None world0 = (out, w')"
    by (cases "run_multi spec_env 1 rules2 [0, 1, 2] (Some no_settings) True
      (Some bounds_B) None world0")
  from scenario_B_verbose have o: "out = Inr ([\<lparr>players = [1, 2]\<rparr>], [(''B'', - 1)])"
    unfolding r by simp
  from run_multi_returns_rosters_and_deviation [where env = spec_env and iterations = 1
      and rule_set = rules2 and player_pool = "[0, 1, 2]" and player_settings = "Some no_settings"
      and verbose = True and exposure_bounds = "Some bounds_B" and exposure_random_seed = None
      and w = world0]
  show ?thesis unfolding r o by simp
qed

text \<open>
  Claim C2. If the solve of some iteration fails (here the call number \<open>k\<close> of the trace,
  counted from 0, so iteration \<open>k + 1\<close>), that call is the last one \<^verbatim>\<open>run_multi\<close> makes,
  and \<^verbatim>\<open>run_multi\<close> returns exactly the \<open>k\<close> rosters accepted before it, which are fewer
  than the iterations requested.
\<close>

theorem run_multi_halts_at_first_failure:
  fixes env :: collaborators and iterations rule_set player_pool player_settings verbose
    exposure_bounds exposure_random_seed w
  defines "out \<equiv> run_multi env iterations rule_set player_pool player_settings verbose
                    exposure_bounds exposure_random_seed w"
  defines "trace \<equiv> new_calls w (snd out)"
  assumes "k < length trace" and "outcome (trace ! k) = Inr None"
  shows "length trace = Suc k
       \<and> (case fst out of
            Inr (rosters, exposure_diffs) \<Rightarrow>
              rosters = accepted (take k trace) \<and> length rosters = k
          | Inl e \<Rightarrow> False)
       \<and> int k < iterations"
proof -
  obtain o1 w' where r: "run_multi env iterations rule_set player_pool player_settings verbose
      exposure_bounds exposure_random_seed w = (o1, w')"
    by (cases "run_multi env iterations rule_set player_pool player_settings verbose
      exposure_bounds exposure_random_seed w")
  then have tr: "trace = new_calls w w'" and fo: "fst out = o1"
    by (simp_all add: trace_def out_def)
  from run_multi_trace [OF r] obtain res where
    t: "well_traced (nat iterations) [] trace res"
    and o: "o1 = (case res of
                 Inl e \<Rightarrow> Inl e
               | Inr rosters \<Rightarrow>
                   Inr (rosters, if rosters \<noteq> [] \<and> verbose
                                 then check_exposure env (heap w') rosters exposure_bounds
                                 else []))"
    unfolding tr by blast
  from well_traced_failure_last [OF t assms(3,4)] have
    f: "length trace = Suc k" "res = Inr (accepted (take k trace))"
      "length (accepted (take k trace)) = k"
    by simp_all
  from well_traced_length [OF t] f(1) have "int k < iterations" by simp
  with f o fo show ?thesis by simp
qed

text \<open>Three iterations requested, B and C bound to one appearance each: the first
  iteration takes B and C, the second finds no roster, and there is no third call.\<close>

theorem run_multi_halts_at_first_failure_witness:
  "1 < length (new_calls world0 (snd (run_multi spec_env 3 rules2 [0, 1, 2] (Some no_settings)
                  False (Some bounds_BC) None world0)))
   \<and> outcome (new_calls world0 (snd (run_multi spec_env 3 rules2 [0, 1, 2] (Some no_settings)
                  False (Some bounds_BC) None world0)) ! 1) = Inr None
   \<and> length (new_calls world0 (snd (run_multi spec_env 3 rules2 [0, 1, 2] (Some no_settings)
                  False (Some bounds_BC) None world0))) = 2
   \<and> fst (run_multi spec_env 3 rules2 [0, 1, 2] (Some no_settings) False (Some bounds_BC) None
            world0) = Inr ([\<lparr>players = [1, 2]\<rparr>], [])"
proof -
  obtain out w' where r: "run_multi spec_env 3 rules2 [0, 1, 2] (Some no_settings) False
      (Some bounds_BC) None world0 = (out, w')"
    by (cases "run_multi spec_env 3 rules2 [0, 1, 2] (Some no_settings) False
      (Some bounds_BC) None world0")
  from scenario_BC have o: "out = Inr ([\<lparr>players = [1, 2]\<rparr>], [])"
    and m: "map outcome (new_calls world0 w') = [Inr (Some \<lparr>players = [1, 2]\<rparr>), Inr None]"
    unfolding r by simp_all
  from m have "length (map outcome (new_calls world0 w')) = 2" by simp
  then have a: "1 < length (new_calls world0 w')" by simp
  from m have "map outcome (new_calls world0 w') ! 1 = Inr None" by simp
  with a have b: "outcome (new_calls world0 w' ! 1) = Inr None" by simp
  from run_multi_halts_at_first_failure [where env = spec_env and iterations = 3
      and rule_set = rules2 and player_pool = "[0, 1, 2]" and player_settings = "Some no_settings"
      and verbose = False and exposure_bounds = "Some bounds_BC" and exposure_random_seed = None
      and w = world0 and k = 1] a b o
  show ?thesis unfolding r by simp
qed

text \<open>
  Claim C4, as stated: the ban and lock flags of every player of the pool are reset to
  false at the start of each iteration. This fails for the first iteration: the loop
  resets the flags after an accepted roster, not before a solve. In the run below
  player C enters \<^verbatim>\<open>run_multi\<close> banned; the first call of \<^verbatim>\<open>run\<close> sees the flag, and the
  first roster is A and B instead of B and C.
\<close>

theorem flags_not_reset_before_first_iteration_counterexample:
  "\<not> flags_clear (seen (new_calls world_banned
        (snd (run_multi spec_env 2 rules2 [0, 1, 2] (Some no_settings) False None None
                world_banned)) ! 0))
   \<and> fst (run_multi spec_env 2 rules2 [0, 1, 2] (Some no_settings) False None None world_banned)
       = Inr ([\<lparr>players = [0, 1]\<rparr>, \<lparr>players = [1, 2]\<rparr>], [])"
proof -
  obtain out w' where r: "run_multi spec_env 2 rules2 [0, 1, 2] (Some no_settings) False None None
      world_banned = (out, w')"
    by (cases "run_multi spec_env 2 rules2 [0, 1, 2] (Some no_settings) False None None
      world_banned")
  from scenario_banned have o: "out = Inr ([\<lparr>players = [0, 1]\<rparr>, \<lparr>players = [1, 2]\<rparr>], [])"
    and m: "map (\<lambda>c. flags_clear (seen c)) (new_calls world_banned w') = [False, True]"
    unfolding r by simp_all
  from m have "length (map (\<lambda>c. flags_clear (seen c)) (new_calls world_banned w')) = 2" by simp
  then have a: "0 < length (new_calls world_banned w')" by simp
  from m have "map (\<lambda>c. flags_clear (seen c)) (new_calls world_banned w') ! 0 = False" by simp
  with a have "\<not> flags_clear (seen (new_calls world_banned w' ! 0))" by simp
  with o show ?thesis unfolding r by simp
qed

text \<open>
  Claim C4, amended. The flags are reset after every accepted roster, so every
  iteration after the first starts with the ban and lock flags of all players of the
  pool false: flags set during one iteration reach the next only through the exposure
  hints of that next iteration. The first iteration sees the pool as the caller passed
  it.
\<close>

theorem flags_clear_after_first_iteration:
  fixes env :: collaborators and iterations rule_set player_pool player_settings verbose
    exposure_bounds exposure_random_seed w
  defines "trace \<equiv> new_calls w (snd (run_multi env iterations rule_set player_pool
                      player_settings verbose exposure_bounds exposure_random_seed w))"
  shows "(trace \<noteq> [] \<longrightarrow> seen (hd trace) = map (heap w) player_pool)
       \<and> list_all flags_clear (map seen (tl trace))"
proof -
  obtain o1 w' where r: "run_multi env iterations rule_set player_pool player_settings verbose
      exposure_bounds exposure_random_seed w = (o1, w')"
    by (cases "run_multi env iterations rule_set player_pool player_settings verbose
      exposure_bounds exposure_random_seed w")
  then have tr: "trace = new_calls w w'" by (simp add: trace_def)
  from run_multi_trace [OF r] show ?thesis unfolding tr by blast
qed

text \<open>The run of the counterexample: the second call sees a pool with all flags false.\<close>

theorem flags_clear_after_first_iteration_witness:
  "new_calls world_banned (snd (run_multi spec_env 2 rules2 [0, 1, 2] (Some no_settings) False
        None None world_banned)) \<noteq> []
   \<and> seen (hd (new_calls world_banned (snd (run_multi spec_env 2 rules2 [0, 1, 2]
        (Some no_settings) False None None world_banned)))) = map (heap world_banned) [0, 1, 2]
   \<and> list_all flags_clear (map seen (tl (new_calls world_banned (snd (run_multi spec_env 2
        rules2 [0, 1, 2] (Some no_settings) False None None world_banned)))))
   \<and> length (new_calls world_banned (snd (run_multi spec_env 2 rules2 [0, 1, 2]
        (Some no_settings) False None None world_banned))) = 2"
proof -
  obtain out w' where r: "run_multi spec_env 2 rules2 [0, 1, 2] (Some no_settings) False None None
      world_banned = (out, w')"
    by (cases "run_multi spec_env 2 rules2 [0, 1, 2] (Some no_settings) False None None
      world_banned")
  from scenario_banned
  have m: "map (\<lambda>c. flags_clear (seen c)) (new_calls world_banned w') = [False, True]"
    unfolding r by simp
  from m have l: "length (map (\<lambda>c. flags_clear (seen c)) (new_calls world_banned w')) = 2" by simp
  then have a: "new_calls world_banned w' \<noteq> []" by auto
  from flags_clear_after_first_iteration [where env = spec_env and iterations = 2
      and rule_set = rules2 and player_pool = "[0, 1, 2]" and player_settings = "Some no_settings"
      and verbose = False and exposure_bounds = None and exposure_random_seed = None
      and w = world_banned] a l
  show ?thesis unfolding r by simp
qed






text \<open>
  Claim C6, as stated: \<^verbatim>\<open>run_multi\<close> only reads \<^verbatim>\<open>existing_rosters\<close>, and the list is
  the same after the run. This fails: line 109 appends every accepted roster to the
  list of the settings object, in place.
\<close>

theorem run_multi_existing_rosters_counterexample:
  "existing_rosters (settings (snd (run_multi spec_env 1 rules2 [0, 1, 2] (Some no_settings) False
      None None world0))) = [\<lparr>players = [1, 2]\<rparr>]
   \<and> existing_rosters (settings world0) = []"
  using scenario_plain by (simp add: case_prod_beta)

text \<open>
  Claim C6, amended. \<^verbatim>\<open>run\<close> only reads the settings; \<^verbatim>\<open>run_multi\<close>, the caller of
  \<^verbatim>\<open>run\<close>, appends each accepted roster to \<^verbatim>\<open>existing_rosters\<close>, so after the run the
  list holds the rosters it held on entry followed by the rosters accepted, in order
  (the rosters returned, when the run returns).
\<close>

theorem run_multi_appends_to_existing_rosters:
  fixes env :: collaborators and iterations rule_set player_pool player_settings verbose
    exposure_bounds exposure_random_seed w
  defines "out \<equiv> run_multi env iterations rule_set player_pool player_settings verbose
                    exposure_bounds exposure_random_seed w"
  shows "existing_rosters (settings (snd out))
           = existing_rosters (settings w) @ accepted (new_calls w (snd out))
       \<and> (case fst out of
            Inr (rosters, exposure_diffs) \<Rightarrow>
              existing_rosters (settings (snd out)) = existing_rosters (settings w) @ rosters
          | Inl e \<Rightarrow> True)"
proof -
  obtain o1 w' where r: "run_multi env iterations rule_set player_pool player_settings verbose
      exposure_bounds exposure_random_seed w = (o1, w')"
    by (cases "run_multi env iterations rule_set player_pool player_settings verbose
      exposure_bounds exposure_random_seed w")
  then have so: "snd out = w'" and fo: "fst out = o1" by (simp_all add: out_def)
  from run_multi_trace [OF r] obtain res where
    t: "well_traced (nat iterations) [] (new_calls w w') res"
    and o: "o1 = (case res of
                 Inl e \<Rightarrow> Inl e
               | Inr rosters \<Rightarrow>
                   Inr (rosters, if rosters \<noteq> [] \<and> verbose
                                 then check_exposure env (heap w') rosters exposure_bounds
                                 else []))"
    and e: "existing_rosters (settings w') =
              existing_rosters (settings w) @ accepted (new_calls w w')"
    by blast
  from well_traced_result [OF t] o e show ?thesis
    unfolding so fo by (cases res) simp_all
qed

text \<open>The run that halts at its second iteration leaves the one accepted roster in the
  list.\<close>

theorem run_multi_appends_to_existing_rosters_witness:
  "existing_rosters (settings (snd (run_multi spec_env 3 rules2 [0, 1, 2] (Some no_settings) False
      (Some bounds_BC) None world0)))
    = existing_rosters (settings world0) @ [\<lparr>players = [1, 2]\<rparr>]"
proof -
  obtain out w' where r: "run_multi spec_env 3 rules2 [0, 1, 2] (Some no_settings) False
      (Some bounds_BC) None world0 = (out, w')"
    by (cases "run_multi spec_env 3 rules2 [0, 1, 2] (Some no_settings) False
      (Some bounds_BC) None world0")
  from scenario_BC have o: "out = Inr ([\<lparr>players = [1, 2]\<rparr>], [])"
    unfolding r by simp
  from run_multi_appends_to_existing_rosters [where env = spec_env and iterations = 3
      and rule_set = rules2 and player_pool = "[0, 1, 2]" and player_settings = "Some no_settings"
      and verbose = False and exposure_bounds = "Some bounds_BC" and exposure_random_seed = None
      and w = world0, THEN conjunct2]
  show ?thesis unfolding r o by simp
qed

text \<open>
  Claim C10. When the solve of an iteration fails, the loop is left before
  \<^verbatim>\<open>reset_player_ban_lock\<close> is called: the players of the pool are, after \<^verbatim>\<open>run_multi\<close>,
  exactly as the failed call of \<^verbatim>\<open>run\<close> left them, flags included. When the last call
  returned a roster the flags of the pool are all false.
\<close>

theorem flags_survive_failed_iteration:
  fixes env :: collaborators and iterations rule_set player_pool player_settings verbose
    exposure_bounds exposure_random_seed w
  defines "out \<equiv> run_multi env iterations rule_set player_pool player_settings verbose
                    exposure_bounds exposure_random_seed w"
  defines "trace \<equiv> new_calls w (snd out)"
  shows "(k < length trace \<and> outcome (trace ! k) = Inr None
            \<longrightarrow> map (heap (snd out)) player_pool = left_pool (trace ! k))
       \<and> (trace \<noteq> [] \<and> outcome (last trace) = Inr (Some r)
            \<longrightarrow> flags_clear (map (heap (snd out)) player_pool))"
proof -
  obtain o1 w' where r: "run_multi env iterations rule_set player_pool player_settings verbose
      exposure_bounds exposure_random_seed w = (o1, w')"
    by (cases "run_multi env iterations rule_set player_pool player_settings verbose
      exposure_bounds exposure_random_seed w")
  then have tr: "trace = new_calls w w'" and so: "snd out = w'"
    by (simp_all add: trace_def out_def)
  from run_multi_trace [OF r] obtain res where
    t: "well_traced (nat iterations) [] trace res"
    and f: "trace \<noteq> [] \<longrightarrow> (case outcome (last trace) of
                Inr (Some r) \<Rightarrow> flags_clear (map (heap w') player_pool)
              | _ \<Rightarrow> map (heap w') player_pool = left_pool (last trace))"
    unfolding tr by blast
  have "map (heap w') player_pool = left_pool (trace ! k)"
    if k: "k < length trace" "outcome (trace ! k) = Inr None"
  proof -
    from well_traced_failure_last [OF t k] have l: "length trace = Suc k" by simp
    then have ne: "trace \<noteq> []" by auto
    from last_conv_nth [OF ne] l have "last trace = trace ! k" by simp
    with f k(2) ne show ?thesis by simp
  qed
  moreover have "flags_clear (map (heap w') player_pool)"
    if "trace \<noteq> []" "outcome (last trace) = Inr (Some r)"
    using f that by simp
  ultimately show ?thesis unfolding so by blast
qed

text \<open>The run that halts at its second iteration: the failed solve had banned B and C,
  and they are still banned when \<^verbatim>\<open>run_multi\<close> has returned. The run of one accepted
  iteration ends with all flags false.\<close>

theorem flags_survive_failed_iteration_witness:
  "1 < length (new_calls world0 (snd (run_multi spec_env 3 rules2 [0, 1, 2] (Some no_settings)
                  False (Some bounds_BC) None world0)))
   \<and> outcome (new_calls world0 (snd (run_multi spec_env 3 rules2 [0, 1, 2] (Some no_settings)
                  False (Some bounds_BC) None world0)) ! 1) = Inr None
   \<and> map (heap (snd (run_multi spec_env 3 rules2 [0, 1, 2] (Some no_settings) False
                  (Some bounds_BC) None world0))) [0, 1, 2]
       = left_pool (new_calls world0 (snd (run_multi spec_env 3 rules2 [0, 1, 2]
                  (Some no_settings) False (Some bounds_BC) None world0)) ! 1)
   \<and> map ban (map (heap (snd (run_multi spec_env 3 rules2 [0, 1, 2] (Some no_settings) False
                  (Some bounds_BC) None world0))) [0, 1, 2]) = [False, True, True]
   \<and> new_calls world0 (snd (run_multi spec_env 1 rules2 [0, 1, 2] (Some no_settings) False
                  None None world0)) \<noteq> []
   \<and> outcome (last (new_calls world0 (snd (run_multi spec_env 1 rules2 [0, 1, 2]
                  (Some no_settings) False None None world0)))) = Inr (Some \<lparr>players = [1, 2]\<rparr>)
   \<and> flags_clear (map (heap (snd (run_multi spec_env 1 rules2 [0, 1, 2] (Some no_settings) False
                  None None world0))) [0, 1, 2])"
proof -
  obtain out w' where r: "run_multi spec_env 3 rules2 [0, 1, 2] (Some no_settings) False
      (Some bounds_BC) None world0 = (out, w')"
    by (cases "run_multi spec_env 3 rules2 [0, 1, 2] (Some no_settings) False
      (Some bounds_BC) None world0")
  from scenario_BC
  have m: "map outcome (new_calls world0 w') = [Inr (Some \<lparr>players = [1, 2]\<rparr>), Inr None]"
    and b: "map ban (map (heap w') [0, 1, 2]) = [False, True, True]"
    unfolding r by simp_all
  from m have "length (map outcome (new_calls world0 w')) = 2" by simp
  then have a: "1 < length (new_calls world0 w')" by simp
  from m have "map outcome (new_calls world0 w') ! 1 = Inr None" by simp
  with a have f: "outcome (new_calls world0 w' ! 1) = Inr None" by simp
  have one: "map (heap w') [0, 1, 2] = left_pool (new_calls world0 w' ! 1)"
    using flags_survive_failed_iteration [where env = spec_env and iterations = 3
      and rule_set = rules2 and player_pool = "[0, 1, 2]" and player_settings = "Some no_settings"
      and verbose = False and exposure_bounds = "Some bounds_BC" and exposure_random_seed = None
      and w = world0 and k = 1, THEN conjunct1] a f
    unfolding r by simp
  obtain out2 w2 where r2: "run_multi spec_env 1 rules2 [0, 1, 2] (Some no_settings) False
      None None world0 = (out2, w2)"
    by (cases "run_multi spec_env 1 rules2 [0, 1, 2] (Some no_settings) False
      None None world0")
  from scenario_plain
  have m2: "map outcome (new_calls world0 w2) = [Inr (Some \<lparr>players = [1, 2]\<rparr>)]"
    unfolding r2 by simp
  then have "length (map outcome (new_calls world0 w2)) = 1" by simp
  then have ne: "new_calls world0 w2 \<noteq> []" by auto
  from m2 have "last (map outcome (new_calls world0 w2)) = Inr (Some \<lparr>players = [1, 2]\<rparr>)"
    by simp
  with ne have la: "outcome (last (new_calls world0 w2)) = Inr (Some \<lparr>players = [1, 2]\<rparr>)"
    by (simp add: last_map)
  have two: "flags_clear (map (heap w2) [0, 1, 2])"
    using flags_survive_failed_iteration [where env = spec_env and iterations = 1
      and rule_set = rules2 and player_pool = "[0, 1, 2]" and player_settings = "Some no_settings"
      and verbose = False and exposure_bounds = None and exposure_random_seed = None
      and w = world0 and r = "\<lparr>players = [1, 2]\<rparr>", THEN conjunct2] ne la
    unfolding r2 by simp
  from a f one b ne la two show ?thesis unfolding r r2 by simp
qed

subsection \<open>The seed\<close>

text \<open>\<^verbatim>\<open>run\<close> and the loop use the seeding function and the \<^verbatim>\<open>use_random\<close> argument of
  \<^verbatim>\<open>get_exposure_args\<close> only as far as the seed is truthy.\<close>

lemma collaborators_kept:
  "filter_pool (env\<lparr>random_seed := f, get_exposure_args := ga\<rparr>) = filter_pool env"
  "optimizer (env\<lparr>random_seed := f, get_exposure_args := ga\<rparr>) = optimizer env"
  "roster_select (env\<lparr>random_seed := f, get_exposure_args := ga\<rparr>) = roster_select env"
  "check_exposure (env\<lparr>random_seed := f, get_exposure_args := ga\<rparr>) = check_exposure env"
  "get_exposure_args (env\<lparr>random_seed := f, get_exposure_args := ga\<rparr>) = ga"
  by simp_all

lemma run_ignores_seeding:
  "run (env\<lparr>random_seed := f, get_exposure_args := ga\<rparr>) rs pool os ps d rg v h
     = run env rs pool os ps d rg v h"
  unfolding run_def collaborators_kept by (rule refl)

lemma exposure_hints_unseeded:
  assumes "\<not> truthy_seed s"
  shows "exposure_hints (env\<lparr>random_seed := f,
        get_exposure_args := \<lambda>h er bs n u. get_exposure_args env h er bs n False\<rparr>) n b s w
     = exposure_hints env n b s w"
proof -
  from assms have "truthy_seed s = False" by simp
  then show ?thesis unfolding exposure_hints_def collaborators_kept by (simp only:)
qed

lemma iteration_unseeded:
  assumes "\<not> truthy_seed s"
  shows "iteration (env\<lparr>random_seed := f,
        get_exposure_args := \<lambda>h er bs n u. get_exposure_args env h er bs n False\<rparr>)
      n rs pool ps v b s w
     = iteration env n rs pool ps v b s w"
  unfolding iteration_def run_ignores_seeding exposure_hints_unseeded [OF assms]
  by (rule refl)

lemma loop_unseeded:
  "\<not> truthy_seed s \<Longrightarrow>
   run_multi_loop (env\<lparr>random_seed := f,
        get_exposure_args := \<lambda>h er bs n u. get_exposure_args env h er bs n False\<rparr>)
      n rs pool ps v b s k rosters w
     = run_multi_loop env n rs pool ps v b s k rosters w"
  by (induction k arbitrary: rosters w)
     (simp_all add: iteration_unseeded split: prod.splits sum.splits option.splits)

lemma exposure_hints_seed_irrelevant:
  assumes "\<And>h er bs n g. get_exposure_args env h er bs n False s g
             = get_exposure_args env h er bs n False None g"
    and "\<not> truthy_seed s"
  shows "exposure_hints env n b s w = exposure_hints env n b None w"
proof -
  from assms(2) have "truthy_seed s = False" "truthy_seed None = False"
    by (simp_all add: truthy_seed_def)
  then show ?thesis unfolding exposure_hints_def by (simp only: assms(1))
qed

lemma loop_seed_irrelevant:
  assumes "\<And>h er bs n g. get_exposure_args env h er bs n False s g
             = get_exposure_args env h er bs n False None g"
    and "\<not> truthy_seed s"
  shows "run_multi_loop env n rs pool ps v b s k rosters w
       = run_multi_loop env n rs pool ps v b None k rosters w"
proof -
  have i: "iteration env n rs pool ps v b s w = iteration env n rs pool ps v b None w" for w
    unfolding iteration_def exposure_hints_seed_irrelevant [OF assms] by (rule refl)
  show ?thesis
    by (induction k arbitrary: rosters w)
       (simp_all add: i split: prod.splits sum.splits option.splits)
qed

text \<open>
  Claim C9. With a falsy seed (\<^verbatim>\<open>None\<close> or 0) the random generator is never seeded and
  every call of \<^verbatim>\<open>get_exposure_args\<close> has \<^verbatim>\<open>use_random\<close> false: the run is the same
  whatever the seeding function is, and the same with \<^verbatim>\<open>use_random\<close> forced to false.
  The seed itself is still passed on as \<^verbatim>\<open>random_seed\<close>; as far as
  \<^verbatim>\<open>get_exposure_args\<close> does not read that argument when \<^verbatim>\<open>use_random\<close> is false, the
  run with seed 0 is the run with no seed.
\<close>

theorem falsy_seed_is_no_seed:
  assumes "\<not> truthy_seed exposure_random_seed"
  shows "run_multi (env\<lparr>random_seed := f,
             get_exposure_args := \<lambda>h er bs n u. get_exposure_args env h er bs n False\<rparr>)
           iterations rule_set player_pool player_settings verbose exposure_bounds
           exposure_random_seed w
         = run_multi env iterations rule_set player_pool player_settings verbose exposure_bounds
             exposure_random_seed w
       \<and> ((\<forall>h er bs n g. get_exposure_args env h er bs n False exposure_random_seed g
                           = get_exposure_args env h er bs n False None g)
          \<longrightarrow> run_multi env iterations rule_set player_pool player_settings verbose
                 exposure_bounds exposure_random_seed w
               = run_multi env iterations rule_set player_pool player_settings verbose
                   exposure_bounds None w)"
proof (intro conjI impI)
  from assms have s: "exposure_random_seed = None \<or> exposure_random_seed = Some 0"
    by (auto simp: truthy_seed_def split: option.splits)
  show "run_multi (env\<lparr>random_seed := f,
             get_exposure_args := \<lambda>h er bs n u. get_exposure_args env h er bs n False\<rparr>)
           iterations rule_set player_pool player_settings verbose exposure_bounds
           exposure_random_seed w
         = run_multi env iterations rule_set player_pool player_settings verbose exposure_bounds
             exposure_random_seed w"
    using s unfolding run_multi_def collaborators_kept loop_unseeded [OF assms] by auto
  assume a: "\<forall>h er bs n g. get_exposure_args env h er bs n False exposure_random_seed g
                           = get_exposure_args env h er bs n False None g"
  then have a': "\<And>h er bs n g. get_exposure_args env h er bs n False exposure_random_seed g
                           = get_exposure_args env h er bs n False None g"
    by blast
  show "run_multi env iterations rule_set player_pool player_settings verbose
                 exposure_bounds exposure_random_seed w
               = run_multi env iterations rule_set player_pool player_settings verbose
                   exposure_bounds None w"
    using s by (auto simp: run_multi_def loop_seed_irrelevant [OF a' assms])
qed

text \<open>Seed 0 on the league of claim C5: no hint is drawn in the first iteration, the
  generator stays in its state 1, and the rosters differ from those of seed 5.\<close>

lemma scenario_zero_seed:
  "case run_multi spec_env 2 rules2 [0, 1, 2] (Some no_settings) False (Some bounds_A) (Some 0)
          (world0\<lparr>rng := 1\<rparr>) of
     (out, w') \<Rightarrow>
       out = Inr ([\<lparr>players = [1, 2]\<rparr>, \<lparr>players = [0, 2]\<rparr>], [])
       \<and> rng w' = 1
       \<and> map hints (new_calls (world0\<lparr>rng := 1\<rparr>) w')
           = [Some \<lparr>dct_banned = [], dct_locked = []\<rparr>,
              Some \<lparr>dct_banned = [], dct_locked = [''A'']\<rparr>]"
  by code_simp

theorem falsy_seed_is_no_seed_witness:
  "\<not> truthy_seed (Some 0)
   \<and> (\<forall>h er bs n g. get_exposure_args spec_env h er bs n False (Some 0) g
                     = get_exposure_args spec_env h er bs n False None g)
   \<and> run_multi spec_env 2 rules2 [0, 1, 2] (Some no_settings) False (Some bounds_A) (Some 0)
        (world0\<lparr>rng := 1\<rparr>)
     = run_multi spec_env 2 rules2 [0, 1, 2] (Some no_settings) False (Some bounds_A) None
        (world0\<lparr>rng := 1\<rparr>)
   \<and> fst (run_multi spec_env 2 rules2 [0, 1, 2] (Some no_settings) False (Some bounds_A) (Some 0)
        (world0\<lparr>rng := 1\<rparr>)) = Inr ([\<lparr>players = [1, 2]\<rparr>, \<lparr>players = [0, 2]\<rparr>], [])
   \<and> rng (snd (run_multi spec_env 2 rules2 [0, 1, 2] (Some no_settings) False (Some bounds_A)
        (Some 0) (world0\<lparr>rng := 1\<rparr>))) = 1"
proof -
  have t: "\<not> truthy_seed (Some 0)" by (simp add: truthy_seed_def)
  have g: "\<forall>h er bs n g. get_exposure_args spec_env h er bs n False (Some 0) g
                     = get_exposure_args spec_env h er bs n False None g"
    by (simp add: spec_env_def spec_get_exposure_args_def)
  from falsy_seed_is_no_seed [OF t, where env = spec_env, THEN conjunct2] g
  have e: "run_multi spec_env 2 rules2 [0, 1, 2] (Some no_settings) False (Some bounds_A) (Some 0)
        (world0\<lparr>rng := 1\<rparr>)
     = run_multi spec_env 2 rules2 [0, 1, 2] (Some no_settings) False (Some bounds_A) None
        (world0\<lparr>rng := 1\<rparr>)"
    by blast
  from scenario_zero_seed have "fst (run_multi spec_env 2 rules2 [0, 1, 2] (Some no_settings)
        False (Some bounds_A) (Some 0) (world0\<lparr>rng := 1\<rparr>))
      = Inr ([\<lparr>players = [1, 2]\<rparr>, \<lparr>players = [0, 2]\<rparr>], [])"
    and "rng (snd (run_multi spec_env 2 rules2 [0, 1, 2] (Some no_settings) False (Some bounds_A)
        (Some 0) (world0\<lparr>rng := 1\<rparr>))) = 1"
    by (simp_all add: case_prod_beta)
  with t g e show ?thesis by simp
qed

section \<open>The optimizer modelled from the spec\<close>

text \<open>The exhaustive search visits every 0/1 assignment, and what it returns is
  feasible.\<close>

lemma foldl_c_ban:
  "c_banned (foldl c_ban c xs) = c_banned c @ xs" "c_locked (foldl c_ban c xs) = c_locked c"
  by (induction xs arbitrary: c) (simp_all add: c_ban_def)

lemma foldl_c_lock:
  "c_locked (foldl c_lock c xs) = c_locked c @ xs" "c_banned (foldl c_lock c xs) = c_banned c"
  by (induction xs arbitrary: c) (simp_all add: c_lock_def)

lemma build_constraints_Some:
  "c_banned (build_constraints (Some s)) = banned s"
  "c_locked (build_constraints (Some s)) = locked s"
  by (simp_all add: build_constraints_def LineupConstraints_def foldl_c_ban foldl_c_lock)

lemma assignments_set:
  "set (assignments n) = {xs. length xs = n \<and> set xs \<subseteq> {0, 1}}"
proof (induction n)
  case 0
  then show ?case by auto
next
  case (Suc n)
  show ?case
  proof (rule set_eqI)
    fix xs :: "int list"
    show "xs \<in> set (assignments (Suc n)) \<longleftrightarrow> xs \<in> {xs. length xs = Suc n \<and> set xs \<subseteq> {0, 1}}"
    proof (cases xs)
      case Nil
      then show ?thesis by auto
    next
      case (Cons y ys)
      with Suc.IH show ?thesis by auto
    qed
  qed
qed

lemma best_of_mem: "best_of f b xs \<in> set (b # xs)"
  by (induction xs arbitrary: b) (auto split: if_splits)

lemma spec_optimizer_unsolved:
  "\<not> solved (spec_optimizer plist rs os c d h) \<longleftrightarrow>
   \<not> list_ex (feasible rs (mark_players c d plist h) plist) (assignments (length plist))"
proof -
  have "solved (spec_optimizer plist rs os c d h) \<longleftrightarrow>
      filter (feasible rs (mark_players c d plist h) plist) (assignments (length plist)) \<noteq> []"
    by (simp add: spec_optimizer_def Let_def split: list.splits)
  then show ?thesis by (simp add: list_ex_iff filter_empty_conv)
qed

lemma spec_optimizer_solved:
  assumes "solved (spec_optimizer plist rs os c d h)"
  shows "feasible rs (mark_players c d plist h) plist (solution (spec_optimizer plist rs os c d h))"
    and "length (solution (spec_optimizer plist rs os c d h)) = length plist"
proof -
  let ?ok = "filter (feasible rs (mark_players c d plist h) plist) (assignments (length plist))"
  from assms obtain x xs where ok: "?ok = x # xs"
    by (cases ?ok) (simp_all add: spec_optimizer_def Let_def)
  then have "solution (spec_optimizer plist rs os c d h)
      = best_of (objective (mark_players c d plist h) plist) x xs"
    by (simp add: spec_optimizer_def Let_def)
  with best_of_mem [of "objective (mark_players c d plist h) plist" x xs] ok
  have "solution (spec_optimizer plist rs os c d h) \<in> set ?ok" by simp
  then show "feasible rs (mark_players c d plist h) plist (solution (spec_optimizer plist rs os c d h))"
    and "length (solution (spec_optimizer plist rs os c d h)) = length plist"
    by (simp_all add: assignments_set)
qed

lemma selected_iff:
  "length xs = length plist \<Longrightarrow>
   p \<in> set (map fst (filter (\<lambda>(p, v). v = 1) (zip plist xs)))
     \<longleftrightarrow> (\<exists>i < length plist. plist ! i = p \<and> xs ! i = 1)"
  by (auto simp: set_zip) force

lemma respects_flags_nth:
  "respects_flags h plist xs \<Longrightarrow> length xs = length plist \<Longrightarrow> i < length plist \<Longrightarrow>
   (lock (h (plist ! i)) \<longrightarrow> xs ! i = 1) \<and> (ban (h (plist ! i)) \<longrightarrow> xs ! i = 0)"
  by (auto simp: respects_flags_def list_all_iff set_zip split: if_splits)

lemma mark_players_flags:
  "p \<in> set plist \<Longrightarrow>
   ban (mark_players c d plist h p) = (ban (h p) \<or> name (h p) \<in> set (forced_out c d))
   \<and> lock (mark_players c d plist h p) = (lock (h p) \<or> name (h p) \<in> set (forced_in c d))"
  by (simp add: mark_players_def mark_def)

text \<open>
  Claim C8, against the optimizer modelled from the spec (the class \<^verbatim>\<open>Optimizer\<close> and
  \<^verbatim>\<open>LineupConstraints\<close> are not among the sources). \<^verbatim>\<open>run\<close> hands the banned and locked
  names of the player settings to the constraints of the solve. It returns a roster
  exactly when some 0/1 assignment satisfies the rule set together with the forced-out
  and forced-in constraints; the roster then holds no player with a banned name, and
  holds every player of the solve with a locked name. When no such assignment exists it
  returns \<^verbatim>\<open>None\<close>.
\<close>

theorem ban_and_lock_honoured:
  fixes rs pool os ps d v h
  defines "plist \<equiv> spec_filter_pool h pool (Some ps)"
  defines "marked \<equiv> mark_players (build_constraints (Some ps)) d plist h"
  shows "case fst (run spec_env rs pool os (Some ps) d None v h) of
           Inr (Some r) \<Rightarrow>
             (\<exists>xs. length xs = length plist \<and> set xs \<subseteq> {0, 1} \<and> feasible rs marked plist xs)
             \<and> (\<forall>p \<in> set (players r). name (h p) \<notin> set (banned ps))
             \<and> (\<forall>p \<in> set plist. name (h p) \<in> set (locked ps) \<longrightarrow> p \<in> set (players r))
         | Inr None \<Rightarrow>
             \<not> (\<exists>xs. length xs = length plist \<and> set xs \<subseteq> {0, 1} \<and> feasible rs marked plist xs)
         | Inl e \<Rightarrow> False"
proof -
  let ?c = "build_constraints (Some ps)"
  let ?opt = "spec_optimizer plist rs os ?c d h"
  have env: "filter_pool spec_env = spec_filter_pool" "optimizer spec_env = spec_optimizer"
    "roster_select spec_env = spec_roster_select"
    by (simp_all add: spec_env_def)
  have ex: "(\<exists>xs. length xs = length plist \<and> set xs \<subseteq> {0, 1} \<and> feasible rs marked plist xs)
      \<longleftrightarrow> list_ex (feasible rs marked plist) (assignments (length plist))"
    by (auto simp: list_ex_iff assignments_set)
  show ?thesis
  proof (cases "solved ?opt")
    case False
    then have "fst (run spec_env rs pool os (Some ps) d None v h) = Inr None"
      by (simp add: run_def Let_def env plist_def)
    moreover from False have "\<not> list_ex (feasible rs marked plist) (assignments (length plist))"
      by (simp add: spec_optimizer_unsolved marked_def)
    ultimately show ?thesis by (simp add: ex)
  next
    case True
    let ?xs = "solution ?opt"
    from spec_optimizer_solved [OF True] have f: "feasible rs marked plist ?xs"
      and l: "length ?xs = length plist"
      by (simp_all add: marked_def)
    from f have rf: "respects_flags marked plist ?xs" by (simp add: feasible_def)
    let ?sel = "map fst (filter (\<lambda>(p, v). v = 1) (zip plist ?xs))"
    from True l have r: "fst (run spec_env rs pool os (Some ps) d None v h)
        = Inr (Some \<lparr>players = ?sel\<rparr>)"
      by (simp add: run_def Let_def env plist_def [symmetric] add_selected_zip
          spec_roster_select_def)
    have b: "name (h p) \<notin> set (banned ps)" if "p \<in> set ?sel" for p
    proof
      assume n: "name (h p) \<in> set (banned ps)"
      from that selected_iff [OF l] obtain i where i: "i < length plist" "plist ! i = p" "?xs ! i = 1"
        by blast
      then have "p \<in> set plist" by auto
      with n have "ban (marked p)"
        by (simp add: marked_def mark_players_flags forced_out_def build_constraints_Some)
      with respects_flags_nth [OF rf l i(1)] i show False by simp
    qed
    have k: "p \<in> set ?sel" if "p \<in> set plist" "name (h p) \<in> set (locked ps)" for p
    proof -
      from that(1) obtain i where i: "i < length plist" "plist ! i = p"
        by (auto simp: in_set_conv_nth)
      from that have "lock (marked p)"
        by (simp add: marked_def mark_players_flags forced_in_def build_constraints_Some)
      with respects_flags_nth [OF rf l i(1)] i have "?xs ! i = 1" by simp
      with i selected_iff [OF l, of p] show ?thesis by blast
    qed
    from f l True have "list_ex (feasible rs marked plist) (assignments (length plist))"
      using spec_optimizer_unsolved [of plist rs os ?c d h] by (simp add: marked_def)
    with b k show ?thesis unfolding r by (simp add: ex)
  qed
qed


text \<open>C banned and A locked in the three-player league: the roster is A and B.\<close>

theorem ban_and_lock_honoured_witness:
  "fst (run spec_env rules2 [0, 1, 2] None (Some ban_C_lock_A) None None False heap0)
     = Inr (Some \<lparr>players = [0, 1]\<rparr>)
   \<and> (\<exists>xs. length xs = length (spec_filter_pool heap0 [0, 1, 2] (Some ban_C_lock_A))
          \<and> set xs \<subseteq> {0, 1}
          \<and> feasible rules2
               (mark_players (build_constraints (Some ban_C_lock_A)) None
                  (spec_filter_pool heap0 [0, 1, 2] (Some ban_C_lock_A)) heap0)
               (spec_filter_pool heap0 [0, 1, 2] (Some ban_C_lock_A)) xs)
   \<and> name (heap0 2) \<in> set (banned ban_C_lock_A)
   \<and> 2 \<notin> set (players \<lparr>players = [0, 1]\<rparr>)
   \<and> name (heap0 0) \<in> set (locked ban_C_lock_A)
   \<and> 0 \<in> set (players \<lparr>players = [0, 1]\<rparr>)"
proof -
  have e: "fst (run spec_env rules2 [0, 1, 2] None (Some ban_C_lock_A) None None False heap0)
     = Inr (Some \<lparr>players = [0, 1]\<rparr>)"
    by code_simp
  have n: "name (heap0 2) \<in> set (banned ban_C_lock_A)" "name (heap0 0) \<in> set (locked ban_C_lock_A)"
    by (simp_all add: heap0_def mk_player_def ban_C_lock_A_def)
  from ban_and_lock_honoured [where rs = rules2 and pool = "[0, 1, 2]" and os = None
      and ps = ban_C_lock_A and d = None and v = False and h = heap0]
  have "\<exists>xs. length xs = length (spec_filter_pool heap0 [0, 1, 2] (Some ban_C_lock_A))
          \<and> set xs \<subseteq> {0, 1}
          \<and> feasible rules2
               (mark_players (build_constraints (Some ban_C_lock_A)) None
                  (spec_filter_pool heap0 [0, 1, 2] (Some ban_C_lock_A)) heap0)
               (spec_filter_pool heap0 [0, 1, 2] (Some ban_C_lock_A)) xs"
    unfolding e by simp
  with e n show ?thesis by simp
qed

end
